theory Spec2Isabelle
  imports Main
begin

section \<open>Python values\<close>

text \<open>
  The values that flow through the sink, the tap and the sample connection: JSON-like
  data (\<open>None\<close>, booleans, integers, text, lists, dictionaries) and the structured
  date/time values that \<open>datetime.datetime.now()\<close> and the date parser produce.
  A dictionary keeps its insertion order, so it is a list of key/value pairs; a Python
  dictionary holds every key once (\<open>distinct (keys d)\<close>).
\<close>

record datetime =
  year :: nat
  month :: nat
  day :: nat
  hour :: nat
  minute :: nat
  second :: nat
  microsecond :: nat
  utcoffset :: "int option"  \<comment> \<open>seconds east of UTC; \<open>None\<close> for a naive value\<close>

datatype pyval =
    PNone
  | PBool bool
  | PInt int
  | PStr string
  | PDateTime datetime
  | PList "pyval list"
  | PDict "(string \<times> pyval) list"

type_synonym pydict = "(string \<times> pyval) list"

text \<open>Truth value testing (\<open>if x:\<close>, \<open>not x\<close>).\<close>

fun truthy :: "pyval \<Rightarrow> bool" where
  "truthy PNone = False"
| "truthy (PBool b) = b"
| "truthy (PInt i) = (i \<noteq> 0)"
| "truthy (PStr s) = (s \<noteq> [])"
| "truthy (PDateTime d) = True"
| "truthy (PList xs) = (xs \<noteq> [])"
| "truthy (PDict d) = (d \<noteq> [])"

datatype pyexn =
    AttributeError string
  | KeyError string
  | TypeError
  | ValueError string
  | NameError string
  | UnboundLocalError string
  | NotImplementedError string
  | ExternalError string  \<comment> \<open>a failure raised by an external library\<close>

subsection \<open>Dictionaries\<close>

definition keys :: "pydict \<Rightarrow> string list" where
  "keys d = map fst d"

text \<open>\<open>d.get(k)\<close>: the value, or \<open>None\<close> (the Python one) when the key is missing.\<close>

definition dict_get :: "pydict \<Rightarrow> string \<Rightarrow> pyval" where
  "dict_get d k = (case map_of d k of None \<Rightarrow> PNone | Some v \<Rightarrow> v)"

text \<open>\<open>d[k]\<close>: raises \<open>KeyError\<close> when the key is missing.\<close>

definition dict_item :: "pydict \<Rightarrow> string \<Rightarrow> pyexn + pyval" where
  "dict_item d k = (case map_of d k of None \<Rightarrow> Inl (KeyError k) | Some v \<Rightarrow> Inr v)"

text \<open>\<open>d[k] = v\<close>: an existing key keeps its place, a new key goes to the end.\<close>

definition dict_set :: "pydict \<Rightarrow> string \<Rightarrow> pyval \<Rightarrow> pydict" where
  "dict_set d k v =
     (if k \<in> set (keys d) then map (\<lambda>(k', v'). if k' = k then (k', v) else (k', v')) d
      else d @ [(k, v)])"

text \<open>\<open>x[k]\<close> on any value, with a text key: only a dictionary supports it.\<close>

fun subscript :: "pyval \<Rightarrow> string \<Rightarrow> pyexn + pyval" where
  "subscript (PDict d) k = dict_item d k"
| "subscript _ k = Inl TypeError"

subsection \<open>ISO-8601 text of a date/time value\<close>

definition digit :: "nat \<Rightarrow> char" where
  "digit n = ''0123456789'' ! (n mod 10)"

fun dec :: "nat \<Rightarrow> string" where
  "dec n = (if n < 10 then [digit n] else dec (n div 10) @ [digit n])"

declare dec.simps [simp del]

text \<open>\<open>"%0wd" % n\<close>: decimal, padded with zeros on the left to at least \<open>w\<close> characters.\<close>

definition zpad :: "nat \<Rightarrow> nat \<Rightarrow> string" where
  "zpad w n = replicate (w - length (dec n)) (CHR ''0'') @ dec n"

definition format_offset :: "int option \<Rightarrow> string" where
  "format_offset off =
     (case off of
        None \<Rightarrow> []
      | Some s \<Rightarrow>
          (let a = nat \<bar>s\<bar>; hh = a div 3600; mm = (a mod 3600) div 60; ss = a mod 60
           in (if s < 0 then ''-'' else ''+'') @ zpad 2 hh @ '':'' @ zpad 2 mm
              @ (if ss \<noteq> 0 then '':'' @ zpad 2 ss else [])))"

definition isoformat :: "datetime \<Rightarrow> string" where
  "isoformat d =
     zpad 4 (year d) @ ''-'' @ zpad 2 (month d) @ ''-'' @ zpad 2 (day d) @ ''T''
     @ zpad 2 (hour d) @ '':'' @ zpad 2 (minute d) @ '':'' @ zpad 2 (second d)
     @ (if microsecond d \<noteq> 0 then ''.'' @ zpad 6 (microsecond d) else [])
     @ format_offset (utcoffset d)"

text \<open>
  The shape of the ISO-8601 text of a naive date/time: in a pattern, \<open>D\<close> stands for
  a decimal digit and any other character for itself. \<open>valid_naive\<close> holds of what
  \<open>datetime.datetime.now()\<close> returns: a value without offset, its fields in range.
\<close>

definition is_digit :: "char \<Rightarrow> bool" where
  "is_digit c = (c \<in> set ''0123456789'')"

fun matches :: "string \<Rightarrow> string \<Rightarrow> bool" where
  "matches [] [] = True"
| "matches (p # ps) (c # cs) = ((if p = CHR ''D'' then is_digit c else c = p) \<and> matches ps cs)"
| "matches _ _ = False"

definition iso8601_naive :: "string \<Rightarrow> bool" where
  "iso8601_naive s =
     (matches ''DDDD-DD-DDTDD:DD:DD'' s \<or> matches ''DDDD-DD-DDTDD:DD:DD.DDDDDD'' s)"

definition valid_naive :: "datetime \<Rightarrow> bool" where
  "valid_naive d =
     (1 \<le> year d \<and> year d \<le> 9999 \<and> 1 \<le> month d \<and> month d \<le> 12 \<and> 1 \<le> day d \<and> day d \<le> 31
      \<and> hour d < 24 \<and> minute d < 60 \<and> second d < 60 \<and> microsecond d < 1000000
      \<and> utcoffset d = None)"

text \<open>
  Reading the text back: the number that a run of decimal digits stands for, and the
  date/time that a text of the shape above stands for, field by field.
\<close>

definition digit_value :: "char \<Rightarrow> nat" where
  "digit_value c = of_char c - 48"

definition number_of :: "string \<Rightarrow> nat" where
  "number_of s = foldl (\<lambda>a c. 10 * a + digit_value c) 0 s"

definition read_naive :: "string \<Rightarrow> datetime" where
  "read_naive s =
     \<lparr>year = number_of (take 4 s), month = number_of (take 2 (drop 5 s)),
      day = number_of (take 2 (drop 8 s)), hour = number_of (take 2 (drop 11 s)),
      minute = number_of (take 2 (drop 14 s)), second = number_of (take 2 (drop 17 s)),
      microsecond = number_of (take 6 (drop 20 s)), utcoffset = None\<rparr>"

section \<open>The target sink\<close>

subsection \<open>Metadata stamping\<close>

text \<open>
  \<open>Sink._add_metadata_values_to_record(record, message)\<close> mutates \<open>record\<close> in place;
  the model returns the record as it is left. The reading of the wall clock
  (\<open>datetime.datetime.now()\<close>, a naive local time) is the input \<open>now\<close>.
\<close>

definition add_metadata_values_to_record :: "datetime \<Rightarrow> pydict \<Rightarrow> pydict \<Rightarrow> pydict" where
  "add_metadata_values_to_record now record message =
     (let record1 = dict_set record ''_sdc_extracted_at'' (dict_get message ''time_extracted'');
          record2 = dict_set record1 ''_sdc_batched_at'' (PStr (isoformat now));
          record3 = dict_set record2 ''_sdc_deleted_at'' (dict_get record2 ''_sdc_deleted_at'')
      in record3)"

subsection \<open>Timestamp validation\<close>

text \<open>
  \<open>get_datelike_property_type\<close> and \<open>handle_invalid_timestamp_in_record\<close> live in
  \<open>singer_sdk.helpers._typing\<close> and \<open>parser.parse\<close> in the date library; none of them
  is part of the sources at hand, so the sink takes them as parameters. The logger
  argument of the repair routine has no effect on values and is left out.
\<close>

text \<open>The member \<open>MAX\<close> is written \<open>MAX'\<close>.\<close>

datatype DatetimeErrorTreatmentEnum = ERROR | MAX' | NULL

record helpers =
  get_datelike_property_type :: "string \<Rightarrow> pyval \<Rightarrow> pyval"
  parse :: "pyval \<Rightarrow> pyexn + pyval"
  handle_invalid_timestamp_in_record ::
    "pydict \<Rightarrow> string list \<Rightarrow> pyval \<Rightarrow> pyval \<Rightarrow> pyexn \<Rightarrow> DatetimeErrorTreatmentEnum \<Rightarrow> pyexn + pyval"

text \<open>
  The body of the \<open>try\<close>: \<open>date_val = record[key]\<close>, then
  \<open>date_val = parser.parse(date_val)\<close>. The result is the parsed value, or the caught
  exception with the local \<open>date_val\<close> as the failing statement left it (\<open>None\<close> when
  it was never bound).
\<close>

definition try_parse ::
  "helpers \<Rightarrow> pydict \<Rightarrow> string \<Rightarrow> pyval option \<Rightarrow> (pyexn \<times> pyval option) + pyval" where
  "try_parse H record key date_val =
     (case dict_item record key of
        Inl ex \<Rightarrow> Inl (ex, date_val)
      | Inr raw \<Rightarrow>
          (case parse H raw of
             Inl ex \<Rightarrow> Inl (ex, Some raw)
           | Inr parsed \<Rightarrow> Inr parsed))"

text \<open>\<open>schema["properties"][key]\<close>.\<close>

definition lookup_descr :: "pydict \<Rightarrow> string \<Rightarrow> pyexn + pyval" where
  "lookup_descr schema key =
     (case dict_item schema ''properties'' of
        Inl e \<Rightarrow> Inl e
      | Inr props \<Rightarrow> subscript props key)"

text \<open>
  One turn of the \<open>for key in record.keys()\<close> loop, on the local \<open>date_val\<close> and the
  record: the exception that ends the loop, or the two as the turn leaves them. When the
  \<open>except\<close> clause is entered with \<open>date_val\<close> not bound, evaluating the arguments of the
  repair routine raises \<open>UnboundLocalError\<close>.
\<close>

definition validate_step ::
  "helpers \<Rightarrow> pydict \<Rightarrow> DatetimeErrorTreatmentEnum \<Rightarrow> string \<Rightarrow> pyval option \<Rightarrow> pydict
   \<Rightarrow> pyexn + pyval option \<times> pydict" where
  "validate_step H schema treatment key date_val record =
     (case lookup_descr schema key of
        Inl e \<Rightarrow> Inl e
      | Inr descr \<Rightarrow>
          (let datelike_type = get_datelike_property_type H key descr in
           if truthy datelike_type then
             (case try_parse H record key date_val of
                Inr parsed \<Rightarrow> Inr (Some parsed, dict_set record key parsed)
              | Inl (ex, None) \<Rightarrow> Inl (UnboundLocalError ''date_val'')
              | Inl (ex, Some raw) \<Rightarrow>
                  (case handle_invalid_timestamp_in_record H record [key] raw datelike_type
                          ex treatment of
                     Inl e \<Rightarrow> Inl e
                   | Inr repaired \<Rightarrow> Inr (Some repaired, dict_set record key repaired)))
           else Inr (date_val, record)))"

text \<open>
  The loop: the exception that ended it, if any, and the record as the loop left it.
\<close>

fun validate_loop ::
  "helpers \<Rightarrow> pydict \<Rightarrow> DatetimeErrorTreatmentEnum \<Rightarrow> string list \<Rightarrow> pyval option \<Rightarrow> pydict
   \<Rightarrow> pyexn option \<times> pydict" where
  "validate_loop H schema treatment [] date_val record = (None, record)"
| "validate_loop H schema treatment (key # rest) date_val record =
     (case validate_step H schema treatment key date_val record of
        Inl e \<Rightarrow> (Some e, record)
      | Inr (date_val', record') \<Rightarrow> validate_loop H schema treatment rest date_val' record')"

definition validate_timestamps_in_record ::
  "helpers \<Rightarrow> pydict \<Rightarrow> pydict \<Rightarrow> DatetimeErrorTreatmentEnum \<Rightarrow> pyexn option \<times> pydict" where
  "validate_timestamps_in_record H record schema treatment =
     validate_loop H schema treatment (keys record) None record"

definition datetime_error_treatment :: DatetimeErrorTreatmentEnum where
  "datetime_error_treatment = ERROR"

definition validate_record :: "helpers \<Rightarrow> pydict \<Rightarrow> pydict \<Rightarrow> pyexn option \<times> pydict" where
  "validate_record H self_schema record =
     validate_timestamps_in_record H record self_schema datetime_error_treatment"




subsection \<open>The buffer and the drain cycle\<close>

text \<open>
  \<open>load_record\<close> appends to a list object in place and \<open>start_drain\<close> hands the same
  list object out, so list objects live in a store and the sink holds references.
  \<open>fresh\<close> is the next unused address.
\<close>

type_synonym addr = nat

record heap =
  cell :: "addr \<Rightarrow> pyval list"
  fresh :: addr

text \<open>The list display \<open>[]\<close>: a new, empty list object.\<close>

definition new_list :: "heap \<Rightarrow> addr \<times> heap" where
  "new_list h = (fresh h, h\<lparr>cell := (cell h)(fresh h := []), fresh := Suc (fresh h)\<rparr>)"

text \<open>
  What \<open>records_to_drain\<close> and \<open>_records_draining\<close> can hold (\<open>Union[List[dict], Any]\<close>):
  a list object, \<open>None\<close>, or another object. Of such an object the sink only ever
  uses the name of its type, its \<open>len\<close> (\<open>None\<close> when it has none) and its truth value;
  the third argument is what the \<open>__bool__\<close> of its class returns or raises (\<open>None\<close> when
  the class defines none).
\<close>

datatype buffer = ListRef addr | NoneVal | Foreign string "nat option" "(pyexn + bool) option"

record sink =
  sink_config :: pydict
  schema :: pydict
  stream_name :: string
  records_to_drain :: buffer
  records_draining :: buffer

text \<open>
  The constructor takes the configuration of the target; the logger has no part in
  the values, and \<open>key_properties\<close> is not used.
\<close>

definition Sink_init :: "pydict \<Rightarrow> string \<Rightarrow> pydict \<Rightarrow> heap \<Rightarrow> sink \<times> heap" where
  "Sink_init target_config name sch h =
     (case new_list h of
        (a, h') \<Rightarrow>
          (\<lparr>sink_config = target_config, schema = sch, stream_name = name,
            records_to_drain = ListRef a, records_draining = NoneVal\<rparr>, h'))"

definition MAX_SIZE_DEFAULT :: nat where
  "MAX_SIZE_DEFAULT = 10000"

definition max_size :: "sink \<Rightarrow> nat" where
  "max_size self = MAX_SIZE_DEFAULT"

text \<open>\<open>len(x)\<close> of what a buffer field holds.\<close>

fun buffer_len :: "heap \<Rightarrow> buffer \<Rightarrow> pyexn + nat" where
  "buffer_len h (ListRef a) = Inr (length (cell h a))"
| "buffer_len h NoneVal = Inl TypeError"
| "buffer_len h (Foreign tn None b) = Inl TypeError"
| "buffer_len h (Foreign tn (Some n) b) = Inr n"



definition current_size :: "sink \<Rightarrow> heap \<Rightarrow> pyexn + nat" where
  "current_size self h = buffer_len h (records_to_drain self)"

definition is_full :: "sink \<Rightarrow> heap \<Rightarrow> pyexn + bool" where
  "is_full self h =
     (case current_size self h of
        Inl e \<Rightarrow> Inl e
      | Inr n \<Rightarrow> Inr (n \<ge> max_size self))"

fun type_name :: "buffer \<Rightarrow> string" where
  "type_name (ListRef a) = ''list''"
| "type_name NoneVal = ''NoneType''"
| "type_name (Foreign tn l b) = tn"

definition load_record :: "sink \<Rightarrow> pyval \<Rightarrow> heap \<Rightarrow> (pyexn + unit) \<times> sink \<times> heap" where
  "load_record self record h =
     (case records_to_drain self of
        ListRef a \<Rightarrow> (Inr (), self, h\<lparr>cell := (cell h)(a := cell h a @ [record])\<rparr>)
      | b \<Rightarrow>
          (Inl (ValueError (''Unexpected type '' @ [CHR 0x27] @ type_name b @ [CHR 0x27]
                  @ '' detected in '' @ [CHR 0x60] @ ''records_to_drain'' @ [CHR 0x60] @ ''.'')),
           self, h))"

definition start_drain :: "sink \<Rightarrow> heap \<Rightarrow> buffer \<times> sink \<times> heap" where
  "start_drain self h =
     (let self1 = self\<lparr>records_draining := records_to_drain self\<rparr> in
      case new_list h of
        (a, h') \<Rightarrow>
          (let self2 = self1\<lparr>records_to_drain := ListRef a\<rparr>
           in (records_draining self2, self2, h')))"


definition mark_drained :: "sink \<Rightarrow> sink" where
  "mark_drained self = self\<lparr>records_draining := NoneVal\<rparr>"

text \<open>
  A host driving one sink: a sequence of calls, which stops at the first call that
  raises.
\<close>

datatype sink_op = LoadRecord pyval | StartDrain | MarkDrained

fun run_op :: "sink_op \<Rightarrow> sink \<Rightarrow> heap \<Rightarrow> pyexn + sink \<times> heap" where
  "run_op (LoadRecord r) self h =
     (case load_record self r h of
        (Inl e, self', h') \<Rightarrow> Inl e
      | (Inr u, self', h') \<Rightarrow> Inr (self', h'))"
| "run_op StartDrain self h =
     (case start_drain self h of (b, self', h') \<Rightarrow> Inr (self', h'))"
| "run_op MarkDrained self h = Inr (mark_drained self, h)"

fun run_ops :: "sink_op list \<Rightarrow> sink \<Rightarrow> heap \<Rightarrow> pyexn + sink \<times> heap" where
  "run_ops [] self h = Inr (self, h)"
| "run_ops (op # ops) self h =
     (case run_op op self h of
        Inl e \<Rightarrow> Inl e
      | Inr (self', h') \<Rightarrow> run_ops ops self' h')"

text \<open>
  The records queued for drain after a sequence of calls, read off the calls alone:
  those loaded since the last \<open>start_drain\<close>.
\<close>

fun queued :: "sink_op list \<Rightarrow> pyval list \<Rightarrow> pyval list" where
  "queued [] acc = acc"
| "queued (LoadRecord r # ops) acc = queued ops (acc @ [r])"
| "queued (StartDrain # ops) acc = queued ops []"
| "queued (MarkDrained # ops) acc = queued ops acc"

section \<open>The tap\<close>

subsection \<open>Text of a list of option sets\<close>

text \<open>
  \<open>str(missing)\<close> for a list of lists of text: the \<open>repr\<close> of every option name,
  between brackets and separated by a comma and a space. Characters are the code points
  below 256; \<open>repr\<close> of text picks the quote, escapes the quote and the backslash, and
  writes a tab, a line feed and a carriage return as a backslash and \<open>t\<close>, \<open>n\<close> or
  \<open>r\<close>, and any other character that is not printable as a backslash, \<open>x\<close> and two
  hexadecimal digits.
\<close>

definition hex2 :: "nat \<Rightarrow> string" where
  "hex2 n = [''0123456789abcdef'' ! ((n div 16) mod 16), ''0123456789abcdef'' ! (n mod 16)]"

definition printable :: "char \<Rightarrow> bool" where
  "printable c =
     (let n = (of_char c :: nat)
      in (32 \<le> n \<and> n < 127) \<or> (161 \<le> n \<and> n \<noteq> 173))"

definition repr_char :: "char \<Rightarrow> char \<Rightarrow> string" where
  "repr_char quote c =
     (if c = quote \<or> c = CHR 0x5C then [CHR 0x5C, c]
      else if c = CHR 0x09 then [CHR 0x5C, CHR ''t'']
      else if c = CHR 0x0A then [CHR 0x5C, CHR ''n'']
      else if c = CHR 0x0D then [CHR 0x5C, CHR ''r'']
      else if printable c then [c]
      else [CHR 0x5C, CHR ''x''] @ hex2 (of_char c))"

definition repr_str :: "string \<Rightarrow> string" where
  "repr_str s =
     (let quote = (if CHR 0x27 \<in> set s \<and> CHR 0x22 \<notin> set s then CHR 0x22 else CHR 0x27)
      in [quote] @ concat (map (repr_char quote) s) @ [quote])"

fun join :: "string \<Rightarrow> string list \<Rightarrow> string" where
  "join sep [] = []"
| "join sep [x] = x"
| "join sep (x # y # ys) = x @ sep @ join sep (y # ys)"

definition repr_list :: "string list \<Rightarrow> string" where
  "repr_list items = ''['' @ join '', '' items @ '']''"

definition str_missing :: "string list list \<Rightarrow> string" where
  "str_missing missing = repr_list (map (\<lambda>s. repr_list (map repr_str s)) missing)"

subsection \<open>The tap object\<close>

text \<open>
  Modelled from the spec: \<open>TapConnectionBase\<close>, which is not among the sources at
  hand, is an abstract class constructed from a configuration mapping. Its instances
  are plain objects, and as such true in a truth test. A connection instance has an
  identity: the number of instances constructed before it. A connection class is given
  by what calling it does: raise, or return a new instance.
\<close>

datatype conn = Conn (conn_id: nat) (conn_config: pydict)

type_synonym conn_class = "pydict \<Rightarrow> pyexn option"

definition instantiate :: "conn_class \<Rightarrow> pydict \<Rightarrow> nat \<Rightarrow> (pyexn + conn) \<times> nat" where
  "instantiate cls cfg n =
     (case cls cfg of
        Some e \<Rightarrow> (Inl e, n)
      | None \<Rightarrow> (Inr (Conn n cfg), Suc n))"

text \<open>
  An attribute that the class only annotates exists on an instance once it has been
  assigned. \<open>_conn\<close> holds \<open>None\<close> or a connection.
\<close>

datatype 'a attribute = Unbound | Bound 'a

record tap =
  name :: string
  vers :: string
  capabilities :: "string list"
  accepted_options :: "string list"
  option_set_requirements :: "string list list"
  config :: pydict
  conn_class :: conn_class
  conn :: "conn option attribute"

definition conn_truthy :: "conn option \<Rightarrow> bool" where
  "conn_truthy v = (case v of None \<Rightarrow> False | Some c \<Rightarrow> True)"

text \<open>Reading \<open>self._conn\<close>.\<close>

definition read_conn :: "tap \<Rightarrow> pyexn + conn option" where
  "read_conn self =
     (case conn self of
        Unbound \<Rightarrow> Inl (AttributeError ''_conn'')
      | Bound v \<Rightarrow> Inr v)"

text \<open>
  \<open>get_connection\<close>: the result, the tap as the call leaves it, and the number of
  connection instances constructed so far.
\<close>

definition get_connection :: "tap \<Rightarrow> nat \<Rightarrow> (pyexn + conn option) \<times> tap \<times> nat" where
  "get_connection self n =
     (case read_conn self of
        Inl e \<Rightarrow> (Inl e, self, n)
      | Inr v \<Rightarrow>
          if \<not> conn_truthy v then
            (case instantiate (conn_class self) (config self) n of
               (Inl e, n') \<Rightarrow> (Inl e, self, n')
             | (Inr c, n') \<Rightarrow>
                 (let self' = self\<lparr>conn := Bound (Some c)\<rparr>
                  in (read_conn self', self', n')))
          else (read_conn self, self, n))"

text \<open>The constructor; the \<open>state\<close> argument is not used.\<close>

definition TapBase_init ::
  "string \<Rightarrow> string \<Rightarrow> string list \<Rightarrow> string list \<Rightarrow> string list list \<Rightarrow> conn_class \<Rightarrow> pydict
   \<Rightarrow> nat \<Rightarrow> (pyexn + tap) \<times> nat" where
  "TapBase_init plugin_name version caps accepted requirements connection_class cfg n =
     (let self = \<lparr>name = plugin_name, vers = version, capabilities = caps,
                   accepted_options = accepted, option_set_requirements = requirements,
                   config = cfg, conn_class = connection_class, conn = Unbound\<rparr>
      in case get_connection self n of
           (Inl e, self', n') \<Rightarrow> (Inl e, n')
         | (Inr v, self', n') \<Rightarrow> (Inr (self'\<lparr>conn := Bound v\<rparr>), n'))"

subsection \<open>Configuration validation\<close>

definition unexpected_option :: "string \<Rightarrow> string" where
  "unexpected_option k = ''Unexpected config option found: '' @ k @ ''.''"

definition missing_options :: "string list list \<Rightarrow> string" where
  "missing_options missing =
     ''One or more required config options are missing. ''
     @ ''Please complete one or more of the following sets: ''
     @ str_missing missing"

text \<open>The loop over the configuration keys.\<close>

fun warn_loop :: "string list \<Rightarrow> string list \<Rightarrow> string list \<Rightarrow> string list" where
  "warn_loop accepted [] warnings = warnings"
| "warn_loop accepted (k # ks) warnings =
     (if k \<notin> set accepted then warn_loop accepted ks (warnings @ [unexpected_option k])
      else warn_loop accepted ks warnings)"

text \<open>The loop over the required sets, on \<open>matched_any\<close> and \<open>missing\<close>.\<close>

fun sets_loop ::
  "string list \<Rightarrow> string list list \<Rightarrow> bool \<Rightarrow> string list list \<Rightarrow> bool \<times> string list list" where
  "sets_loop config_keys [] matched_any missing = (matched_any, missing)"
| "sets_loop config_keys (required_set # rest) matched_any missing =
     (if list_all (\<lambda>x. x \<in> set config_keys) required_set
      then sets_loop config_keys rest True missing
      else sets_loop config_keys rest matched_any
             (missing @ [filter (\<lambda>x. x \<notin> set config_keys) required_set]))"

definition validate_config :: "tap \<Rightarrow> string list \<times> string list" where
  "validate_config self =
     (let warnings = warn_loop (accepted_options self) (keys (config self)) [];
          errors =
            (if option_set_requirements self \<noteq> [] then
               (case sets_loop (keys (config self)) (option_set_requirements self) False [] of
                  (matched_any, missing) \<Rightarrow>
                    if \<not> matched_any then [missing_options missing] else [])
             else [])
      in (warnings, errors))"

text \<open>
  Reading an error message back: the sets of option names that the text after the
  fixed part of the message lists. A name is plain when its characters are printable
  ASCII other than the quote and the backslash, so that it is written as it is between
  two quotes. The text is read from left to right: a quote opens or closes a name, a
  closing bracket ends a set, and the last bracket, which ends the list, is left out.
\<close>

definition plain_char :: "char \<Rightarrow> bool" where
  "plain_char c =
     (32 \<le> (of_char c :: nat) \<and> (of_char c :: nat) < 127 \<and> c \<noteq> CHR 0x27 \<and> c \<noteq> CHR 0x5C)"

fun read_sets :: "string \<Rightarrow> string option \<Rightarrow> string list \<Rightarrow> string list list \<Rightarrow> string list list" where
  "read_sets [] q cur sets = sets"
| "read_sets (c # cs) (Some nm) cur sets =
     (if c = CHR 0x27 then read_sets cs None (cur @ [nm]) sets
      else read_sets cs (Some (nm @ [c])) cur sets)"
| "read_sets (c # cs) None cur sets =
     (if c = CHR 0x27 then read_sets cs (Some []) cur sets
      else if c = CHR '']'' then read_sets cs None [] (sets @ [cur])
      else read_sets cs None cur sets)"

definition listed_sets :: "string \<Rightarrow> string list list" where
  "listed_sets body = read_sets (butlast body) None [] []"

section \<open>The sample warehouse connection\<close>

text \<open>
  Modelled from the spec: the warehouse client library, which provides connection
  objects, cursor objects returning dictionary-shaped rows, and row-count
  introspection. A result set is the names of its columns and the values of each row.
  The class of a cursor decides the shape of the rows it returns: a \<open>DictCursor\<close>
  gives every row as the dictionary \<open>dict(zip(column_names, values))\<close>, the plain
  cursor as the sequence of its values.
\<close>

datatype cursor_class = SnowflakeCursor | DictCursor

definition dict_of :: "(string \<times> pyval) list \<Rightarrow> pydict" where
  "dict_of pairs = foldl (\<lambda>d (k, v). dict_set d k v) [] pairs"

fun shape_row :: "cursor_class \<Rightarrow> string list \<Rightarrow> pyval list \<Rightarrow> pyval" where
  "shape_row DictCursor columns vals = PDict (dict_of (zip columns vals))"
| "shape_row SnowflakeCursor columns vals = PList vals"

text \<open>
  The client library and \<open>connect_with_backoff\<close> of the connection base are external:
  a client is given by what its calls do to a connection and a cursor. \<open>fetchall\<close>
  gives the result set of the cursor, which \<open>query\<close> gets in the shape of the cursor's
  class. A call of \<open>query\<close> gives its outcome and the trace of the client calls that
  succeeded, in order; \<open>Executed\<close> carries the statement and the row count the cursor
  reported after it, \<open>Fetched\<close> the rows that \<open>fetchall\<close> returned.
\<close>

record ('conn, 'cur, 'p) client =
  connect_with_backoff :: "pyexn + 'conn"
  cursor :: "'conn \<Rightarrow> cursor_class \<Rightarrow> pyexn + 'cur"
  execute :: "'cur \<Rightarrow> string \<Rightarrow> 'p \<Rightarrow> pyexn + 'cur"
  rowcount :: "'cur \<Rightarrow> int"
  fetchall :: "'cur \<Rightarrow> pyexn + (string list \<times> pyval list list) \<times> 'cur"

datatype event =
    Connected
  | CursorOpened
  | Executed string int
  | Fetched "pyval list"
  | CursorClosed
  | Disconnected

datatype query_arg = Statement string | Statements "string list"

definition emit :: "event list \<Rightarrow> 'a \<times> event list \<Rightarrow> 'a \<times> event list" where
  "emit evs out = (fst out, evs @ snd out)"

definition closing :: "event list \<Rightarrow> 'a \<times> event list \<Rightarrow> 'a \<times> event list" where
  "closing evs out = (fst out, snd out @ evs)"

text \<open>\<open>cur.fetchall()\<close> on a cursor of the class \<open>cls\<close>.\<close>

definition fetch_rows ::
  "('conn, 'cur, 'p) client \<Rightarrow> cursor_class \<Rightarrow> 'cur \<Rightarrow> pyexn + pyval list \<times> 'cur" where
  "fetch_rows cl cls cur =
     (case fetchall cl cur of
        Inl e \<Rightarrow> Inl e
      | Inr ((columns, vals), cur') \<Rightarrow> Inr (map (shape_row cls columns) vals, cur'))"

text \<open>
  The \<open>for sql in queries\<close> loop, on a cursor of the class \<open>cls\<close>. The module neither
  defines nor imports \<open>TooManyRecordsException\<close>, so evaluating the \<open>raise\<close>
  statement's expression raises \<open>NameError\<close>.
\<close>

fun run_queries ::
  "('conn, 'cur, 'p) client \<Rightarrow> cursor_class \<Rightarrow> 'p \<Rightarrow> int \<Rightarrow> string list \<Rightarrow> 'cur \<Rightarrow> pyval list
   \<Rightarrow> (pyexn + pyval list) \<times> event list" where
  "run_queries cl cls params max_records [] cur result = (Inr result, [])"
| "run_queries cl cls params max_records (sql # rest) cur result =
     (case execute cl cur sql params of
        Inl e \<Rightarrow> (Inl e, [])
      | Inr cur1 \<Rightarrow>
          emit [Executed sql (rowcount cl cur1)]
            (if max_records \<noteq> 0 \<and> rowcount cl cur1 > max_records
             then (Inl (NameError ''TooManyRecordsException''), [])
             else if rowcount cl cur1 > 0 then
               (case fetch_rows cl cls cur1 of
                  Inl e \<Rightarrow> (Inl e, [])
                | Inr (rows, cur2) \<Rightarrow>
                    emit [Fetched rows]
                      (run_queries cl cls params max_records rest cur2 rows))
             else run_queries cl cls params max_records rest cur1 result))"

definition query ::
  "('conn, 'cur, 'p) client \<Rightarrow> query_arg \<Rightarrow> 'p \<Rightarrow> int \<Rightarrow> (pyexn + pyval list) \<times> event list" where
  "query cl q params max_records =
     (case connect_with_backoff cl of
        Inl e \<Rightarrow> (Inl e, [])
      | Inr connection \<Rightarrow>
          emit [Connected] (closing [Disconnected]
            (case cursor cl connection DictCursor of
               Inl e \<Rightarrow> (Inl e, [])
             | Inr cur \<Rightarrow>
                 emit [CursorOpened] (closing [CursorClosed]
                   (let queries =
                          (case q of
                             Statements qs \<Rightarrow> [''START TRANSACTION''] @ qs
                           | Statement sql \<Rightarrow> [sql])
                    in run_queries cl DictCursor params max_records queries cur [])))))"

text \<open>
  What the trace says was run and fetched: the statements executed, in order, and the
  rows of the last fetch (the empty list when nothing was fetched).
\<close>

fun executed :: "event list \<Rightarrow> string list" where
  "executed [] = []"
| "executed (Executed sql n # tr) = sql # executed tr"
| "executed (ev # tr) = executed tr"

fun last_fetched :: "event list \<Rightarrow> pyval list \<Rightarrow> pyval list" where
  "last_fetched [] acc = acc"
| "last_fetched (Fetched rows # tr) acc = last_fetched tr rows"
| "last_fetched (ev # tr) acc = last_fetched tr acc"

text \<open>
  A row that is the dictionary of the values \<open>vals\<close> keyed by the column names: its
  keys are the names of the columns, and under a name it holds the value of the column
  of that name (of the last one, should two columns have the same name).
\<close>

definition keyed_row :: "string list \<Rightarrow> pyval \<Rightarrow> pyval list \<Rightarrow> bool" where
  "keyed_row columns row vals =
     (case row of
        PDict d \<Rightarrow>
          distinct (keys d) \<and> set (keys d) = set (map fst (zip columns vals))
          \<and> (\<forall>k \<in> set (keys d). map_of d k = map_of (rev (zip columns vals)) k)
      | _ \<Rightarrow> False)"

fun is_dict_row :: "pyval \<Rightarrow> bool" where
  "is_dict_row (PDict d) = True"
| "is_dict_row _ = False"

text \<open>
  A trace of the statement loop checked against the client, from the cursor \<open>cur\<close> on:
  each statement was executed on the cursor as the step before left it, the row count
  reported is the one the cursor has after it, the rows were fetched when and only when
  that count is positive, and they are the result set of that cursor, every row keyed by
  column name.
\<close>

fun client_run :: "('conn, 'cur, 'p) client \<Rightarrow> 'p \<Rightarrow> 'cur \<Rightarrow> event list \<Rightarrow> bool" where
  "client_run cl params cur [] = True"
| "client_run cl params cur (Executed sql n # Fetched rows # tr) =
     (case execute cl cur sql params of
        Inl e \<Rightarrow> False
      | Inr cur1 \<Rightarrow>
          n = rowcount cl cur1 \<and> n > 0
          \<and> (case fetchall cl cur1 of
                Inl e \<Rightarrow> False
              | Inr ((columns, vals), cur2) \<Rightarrow>
                  list_all2 (keyed_row columns) rows vals \<and> client_run cl params cur2 tr))"
| "client_run cl params cur (Executed sql n # tr) =
     (case execute cl cur sql params of
        Inl e \<Rightarrow> False
      | Inr cur1 \<Rightarrow> n = rowcount cl cur1 \<and> \<not> n > 0 \<and> client_run cl params cur1 tr)"
| "client_run cl params cur (ev # tr) = False"

text \<open>A trace that does not begin with a fetch.\<close>

fun starts_executed :: "event list \<Rightarrow> bool" where
  "starts_executed [] = True"
| "starts_executed (Executed sql n # tr) = True"
| "starts_executed (ev # tr) = False"

text \<open>
  A client to run \<open>query\<close> on: the cursor remembers the last statement, and only
  \<open>SELECT ID FROM T\<close> reports rows, two of them, of one column.
\<close>

definition sample_client :: "(unit, string, unit) client" where
  "sample_client =
     \<lparr>connect_with_backoff = Inr (),
      cursor = (\<lambda>_ _. Inr []),
      execute = (\<lambda>cur sql p. Inr sql),
      rowcount = (\<lambda>cur. if cur = ''SELECT ID FROM T'' then 2 else 0),
      fetchall = (\<lambda>cur. Inr (([''ID''], [[PInt 1], [PInt 2]]), cur))\<rparr>"

section \<open>Properties of dictionaries\<close>

lemma map_of_upd_all:
  "map_of (map (\<lambda>(k', v'). if k' = k then (k', v) else (k', v')) d) x
     = (if x = k then map_option (\<lambda>_. v) (map_of d k) else map_of d x)"
proof (induction d)
  case Nil
  show ?case by simp
next
  case (Cons p d)
  obtain a b where p: "p = (a, b)" by (cases p)
  show ?case using Cons by (cases "x = k") (simp_all add: p)
qed

lemma map_of_dict_set: "map_of (dict_set d k v) = (map_of d)(k \<mapsto> v)"
proof (cases "k \<in> set (keys d)")
  case False
  then have "map_of d k = None"
    by (simp add: keys_def map_of_eq_None_iff)
  then show ?thesis
    using False by (simp add: dict_set_def fun_eq_iff map_add_def split: option.splits)
next
  case True
  then have "map_of d k \<noteq> None"
    by (simp add: keys_def map_of_eq_None_iff)
  then obtain w where "map_of d k = Some w"
    by blast
  with True show ?thesis
    by (simp add: dict_set_def fun_eq_iff map_of_upd_all)
qed

lemma keys_dict_set:
  "keys (dict_set d k v) = (if k \<in> set (keys d) then keys d else keys d @ [k])"
proof -
  have "map fst (map (\<lambda>(k', v'). if k' = k then (k', v) else (k', v')) d) = map fst d"
    by (induction d) auto
  then show ?thesis
    by (simp add: dict_set_def keys_def)
qed

lemma dict_get_dict_set:
  "dict_get (dict_set d k v) k' = (if k' = k then v else dict_get d k')"
  by (simp add: dict_get_def map_of_dict_set)

section \<open>The ISO-8601 text\<close>

lemma is_digit_digit: "is_digit (digit n)"
proof -
  have "n mod 10 < length ''0123456789''" by simp
  then have "''0123456789'' ! (n mod 10) \<in> set ''0123456789''"
    by (rule nth_mem)
  then show ?thesis
    by (simp only: is_digit_def digit_def)
qed

lemma dec_digits: "list_all is_digit (dec n)"
proof (induction n rule: dec.induct)
  case (1 n)
  then show ?case
    by (subst dec.simps) (simp add: is_digit_digit)
qed

lemma length_dec_le: "n < 10 ^ w \<Longrightarrow> 0 < w \<Longrightarrow> length (dec n) \<le> w"
proof (induction w arbitrary: n)
  case 0
  then show ?case by simp
next
  case (Suc w)
  show ?case
  proof (cases "n < 10")
    case True
    then show ?thesis by (subst dec.simps) simp
  next
    case False
    from Suc.prems have "n < 10 ^ w * 10"
      by (simp add: mult.commute)
    then have 1: "n div 10 < 10 ^ w"
      by (rule less_mult_imp_div_less)
    have 2: "0 < w"
    proof (rule ccontr)
      assume "\<not> 0 < w"
      then have "w = 0" by simp
      with Suc.prems False show False by simp
    qed
    note this = 1 2
    from Suc.IH [OF this] False show ?thesis
      by (subst dec.simps) simp
  qed
qed

lemma matches_digits: "list_all is_digit s \<Longrightarrow> matches (replicate (length s) (CHR ''D'')) s"
  by (induction s) simp_all

lemma matches_append: "matches p s \<Longrightarrow> matches p' s' \<Longrightarrow> matches (p @ p') (s @ s')"
  by (induction p s rule: matches.induct) simp_all

lemma zpad_matches:
  assumes "n < 10 ^ w" and "0 < w"
  shows "matches (replicate w (CHR ''D'')) (zpad w n)"
proof -
  have "length (zpad w n) = w"
    using length_dec_le [OF assms] by (simp add: zpad_def)
  moreover have "list_all is_digit (replicate k (CHR ''0''))" for k
    by (induction k) (simp_all add: is_digit_def)
  then have "list_all is_digit (zpad w n)"
    by (simp add: zpad_def dec_digits)
  ultimately show ?thesis
    using matches_digits [of "zpad w n"] by simp
qed

lemma isoformat_naive:
  assumes "valid_naive d"
  shows "iso8601_naive (isoformat d)"
proof -
  have r: "replicate 4 (CHR ''D'') = ''DDDD''" "replicate 2 (CHR ''D'') = ''DD''"
    "replicate 6 (CHR ''D'') = ''DDDDDD''"
    by (simp_all add: numeral_eq_Suc)
  have y: "matches ''DDDD'' (zpad 4 (year d))"
    using zpad_matches [of "year d" 4] assms by (simp add: valid_naive_def r)
  have two: "matches ''DD'' (zpad 2 n)" if "n < 100" for n
    using zpad_matches [of n 2] that by (simp add: r)
  have us: "matches ''DDDDDD'' (zpad 6 (microsecond d))"
    using zpad_matches [of "microsecond d" 6] assms by (simp add: valid_naive_def r)
  have m: "matches ''DD'' (zpad 2 (month d))" "matches ''DD'' (zpad 2 (day d))"
    "matches ''DD'' (zpad 2 (hour d))" "matches ''DD'' (zpad 2 (minute d))"
    "matches ''DD'' (zpad 2 (second d))"
    using assms by (simp_all add: valid_naive_def two)
  have lit: "matches ''-'' ''-''" "matches ''T'' ''T''" "matches '':'' '':''" "matches ''.'' ''.''"
    by simp_all
  have base: "matches (''DDDD'' @ ''-'' @ ''DD'' @ ''-'' @ ''DD'' @ ''T'' @ ''DD'' @ '':'' @ ''DD''
                        @ '':'' @ ''DD'')
                (zpad 4 (year d) @ ''-'' @ zpad 2 (month d) @ ''-'' @ zpad 2 (day d) @ ''T''
                 @ zpad 2 (hour d) @ '':'' @ zpad 2 (minute d) @ '':'' @ zpad 2 (second d))"
    using matches_append [OF y matches_append [OF lit(1) matches_append [OF m(1)
            matches_append [OF lit(1) matches_append [OF m(2) matches_append [OF lit(2)
            matches_append [OF m(3) matches_append [OF lit(3) matches_append [OF m(4)
            matches_append [OF lit(3) m(5)]]]]]]]]]]
    by simp
  show ?thesis
  proof (cases "microsecond d = 0")
    case True
    with base assms show ?thesis
      by (simp add: iso8601_naive_def isoformat_def valid_naive_def format_offset_def)
  next
    case False
    have "matches ((''DDDD'' @ ''-'' @ ''DD'' @ ''-'' @ ''DD'' @ ''T'' @ ''DD'' @ '':'' @ ''DD''
                        @ '':'' @ ''DD'') @ ''.'' @ ''DDDDDD'')
                ((zpad 4 (year d) @ ''-'' @ zpad 2 (month d) @ ''-'' @ zpad 2 (day d) @ ''T''
                 @ zpad 2 (hour d) @ '':'' @ zpad 2 (minute d) @ '':'' @ zpad 2 (second d))
                 @ ''.'' @ zpad 6 (microsecond d))"
      using matches_append [OF base matches_append [OF lit(4) us]] by simp
    with False assms show ?thesis
      by (simp add: iso8601_naive_def isoformat_def valid_naive_def format_offset_def)
  qed
qed

lemma digit_value_digit: "digit_value (digit n) = n mod 10"
proof -
  have "digit_value (''0123456789'' ! k) = k" if "k < 10" for k
  proof -
    from that have "k = 0 \<or> k = 1 \<or> k = 2 \<or> k = 3 \<or> k = 4 \<or> k = 5 \<or> k = 6 \<or> k = 7
        \<or> k = 8 \<or> k = 9"
      by arith
    then show ?thesis
      by (elim disjE) (simp_all add: digit_value_def)
  qed
  then show ?thesis
    by (simp add: digit_def)
qed

lemma number_of_Nil: "number_of [] = 0"
  by (simp add: number_of_def)

lemma number_of_snoc: "number_of (s @ [c]) = 10 * number_of s + digit_value c"
  by (simp add: number_of_def)

lemma number_of_dec: "number_of (dec n) = n"
proof (induction n rule: dec.induct)
  case (1 n)
  show ?case
  proof (cases "n < 10")
    case True
    then show ?thesis
      by (subst dec.simps) (simp add: number_of_def digit_value_digit)
  next
    case False
    with 1 show ?thesis
      by (subst dec.simps) (simp add: number_of_snoc digit_value_digit)
  qed
qed

lemma number_of_zeros: "number_of (replicate k (CHR ''0'') @ s) = number_of s"
proof -
  have "foldl (\<lambda>a c. 10 * a + digit_value c) 0 (replicate k (CHR ''0'')) = 0"
    by (induction k) (simp_all add: digit_value_def)
  then show ?thesis
    by (simp add: number_of_def)
qed

lemma number_of_zpad: "number_of (zpad w n) = n"
  by (simp add: zpad_def number_of_zeros number_of_dec)

lemma length_zpad: "n < 10 ^ w \<Longrightarrow> 0 < w \<Longrightarrow> length (zpad w n) = w"
  using length_dec_le [of n w] by (simp add: zpad_def)

lemma read_naive_isoformat:
  assumes "valid_naive d"
  shows "read_naive (isoformat d) = d"
proof -
  define Y where "Y = zpad 4 (year d)"
  define M where "M = zpad 2 (month d)"
  define D where "D = zpad 2 (day d)"
  define H where "H = zpad 2 (hour d)"
  define Mi where "Mi = zpad 2 (minute d)"
  define S where "S = zpad 2 (second d)"
  define U where "U = zpad 6 (microsecond d)"
  have len: "length Y = 4" "length M = 2" "length D = 2" "length H = 2" "length Mi = 2"
    "length S = 2" "length U = 6"
    using assms by (simp_all add: valid_naive_def length_zpad Y_def M_def D_def H_def Mi_def
        S_def U_def)
  have num: "number_of Y = year d" "number_of M = month d" "number_of D = day d"
    "number_of H = hour d" "number_of Mi = minute d" "number_of S = second d"
    "number_of U = microsecond d"
    by (simp_all add: number_of_zpad Y_def M_def D_def H_def Mi_def S_def U_def)
  have off: "utcoffset d = None"
    using assms by (simp add: valid_naive_def)
  have iso: "isoformat d
      = Y @ ''-'' @ M @ ''-'' @ D @ ''T'' @ H @ '':'' @ Mi @ '':'' @ S
        @ (if microsecond d \<noteq> 0 then ''.'' @ U else [])"
    by (simp add: isoformat_def off format_offset_def Y_def M_def D_def H_def Mi_def S_def
        U_def)
  have "read_naive (isoformat d)
      = \<lparr>year = year d, month = month d, day = day d, hour = hour d, minute = minute d,
         second = second d, microsecond = microsecond d, utcoffset = None\<rparr>"
  proof (cases "microsecond d = 0")
    case True
    then show ?thesis
      by (simp add: read_naive_def iso len num number_of_Nil)
  next
    case False
    then show ?thesis
      by (simp add: read_naive_def iso len num)
  qed
  also have "\<dots> = d"
    using off by (cases d) simp
  finally show ?thesis .
qed

section \<open>Metadata stamping\<close>

text \<open>
  Claim C1. \<open>_add_metadata_values_to_record(r, m)\<close> leaves a record that differs from
  \<open>r\<close> in three fields only: \<open>_sdc_extracted_at\<close> is the message's \<open>time_extracted\<close>
  (the value \<open>None\<close> when the message has none), \<open>_sdc_batched_at\<close> is the ISO-8601
  text of the wall-clock reading, and \<open>_sdc_deleted_at\<close> is what \<open>r\<close> carried under
  that name (the value \<open>None\<close> when it carried nothing). For a reading of the clock,
  the text has the shape \<open>YYYY-MM-DDTHH:MM:SS\<close>, with six more digits after a dot when
  the microseconds are not zero, and it is the text of that reading: read back field by
  field, it gives the reading.
\<close>

theorem add_metadata_values_to_record_sets:
  "map_of (add_metadata_values_to_record now r m)
     = (map_of r)(''_sdc_extracted_at'' \<mapsto> dict_get m ''time_extracted'',
                  ''_sdc_batched_at'' \<mapsto> PStr (isoformat now),
                  ''_sdc_deleted_at'' \<mapsto> dict_get r ''_sdc_deleted_at'')
   \<and> dict_get m ''time_extracted''
       = (case map_of m ''time_extracted'' of None \<Rightarrow> PNone | Some v \<Rightarrow> v)
   \<and> dict_get r ''_sdc_deleted_at''
       = (case map_of r ''_sdc_deleted_at'' of None \<Rightarrow> PNone | Some v \<Rightarrow> v)
   \<and> (valid_naive now \<longrightarrow>
        iso8601_naive (isoformat now) \<and> read_naive (isoformat now) = now)"
proof -
  have "map_of (add_metadata_values_to_record now r m)
     = (map_of r)(''_sdc_extracted_at'' \<mapsto> dict_get m ''time_extracted'',
                  ''_sdc_batched_at'' \<mapsto> PStr (isoformat now),
                  ''_sdc_deleted_at'' \<mapsto> dict_get r ''_sdc_deleted_at'')"
    by (simp add: add_metadata_values_to_record_def Let_def map_of_dict_set dict_get_dict_set)
  moreover have "dict_get d k = (case map_of d k of None \<Rightarrow> PNone | Some v \<Rightarrow> v)" for d k
    by (simp add: dict_get_def)
  ultimately show ?thesis
    using isoformat_naive [of now] read_naive_isoformat [of now] by simp
qed

theorem add_metadata_values_to_record_sets_witness:
  "map_of (add_metadata_values_to_record
             \<lparr>year = 2024, month = 11, day = 2, hour = 3, minute = 4, second = 5,
              microsecond = 0, utcoffset = None\<rparr>
             [] [(''time_extracted'', PStr ''2024-01-01T00:00:00Z'')])
     = [''_sdc_extracted_at'' \<mapsto> PStr ''2024-01-01T00:00:00Z'',
        ''_sdc_batched_at'' \<mapsto> PStr ''2024-11-02T03:04:05'',
        ''_sdc_deleted_at'' \<mapsto> PNone]
   \<and> iso8601_naive ''2024-11-02T03:04:05''
   \<and> read_naive ''2024-11-02T03:04:05''
       = \<lparr>year = 2024, month = 11, day = 2, hour = 3, minute = 4, second = 5,
          microsecond = 0, utcoffset = None\<rparr>"
proof -
  have iso: "isoformat \<lparr>year = 2024, month = 11, day = 2, hour = 3, minute = 4, second = 5,
                         microsecond = 0, utcoffset = None\<rparr> = ''2024-11-02T03:04:05''"
    by code_simp
  have v: "valid_naive \<lparr>year = 2024, month = 11, day = 2, hour = 3, minute = 4, second = 5,
                         microsecond = 0, utcoffset = None\<rparr>"
    by (simp add: valid_naive_def)
  show ?thesis
    using add_metadata_values_to_record_sets
      [of "\<lparr>year = 2024, month = 11, day = 2, hour = 3, minute = 4, second = 5,
             microsecond = 0, utcoffset = None\<rparr>"
          "[]" "[(''time_extracted'', PStr ''2024-01-01T00:00:00Z'')]"]
      v
    by (simp add: iso dict_get_def)
qed

section \<open>The drain cycle\<close>

lemma load_record_list:
  "records_to_drain self = ListRef a \<Longrightarrow>
   load_record self r h = (Inr (), self, h\<lparr>cell := (cell h)(a := cell h a @ [r])\<rparr>)"
  by (simp add: load_record_def)

lemma start_drain_list:
  "start_drain self h
     = (records_to_drain self,
        self\<lparr>records_draining := records_to_drain self, records_to_drain := ListRef (fresh h)\<rparr>,
        h\<lparr>cell := (cell h)(fresh h := []), fresh := Suc (fresh h)\<rparr>)"
  by (simp add: start_drain_def new_list_def Let_def)

lemma queued_append: "queued (ops @ ops') acc = queued ops' (queued ops acc)"
  by (induction ops acc rule: queued.induct) simp_all

lemma queued_loads: "queued (map LoadRecord rs) acc = acc @ rs"
  by (induction rs arbitrary: acc) simp_all

lemma run_ops_loads:
  "records_to_drain self = ListRef a \<Longrightarrow>
   \<exists>h1. run_ops (map LoadRecord extra) self h = Inr (self, h1)
        \<and> cell h1 a = cell h a @ extra \<and> fresh h1 = fresh h"
proof (induction extra arbitrary: h)
  case Nil
  show ?case by simp
next
  case (Cons r extra)
  from Cons.IH [OF Cons.prems, of "h\<lparr>cell := (cell h)(a := cell h a @ [r])\<rparr>"]
  show ?case
    by (simp add: load_record_list [OF Cons.prems])
qed

text \<open>
  The invariant of a running sink: the buffer is an allocated list object. A call
  changes no list object but the buffer, and the buffer holds what \<open>queued\<close> says.
\<close>

lemma run_op_invariant:
  assumes "records_to_drain self = ListRef b" and "b < fresh h"
  shows "\<exists>self' h' b'. run_op op self h = Inr (self', h')
           \<and> records_to_drain self' = ListRef b' \<and> b' < fresh h' \<and> fresh h \<le> fresh h'
           \<and> (b' = b \<or> b' = fresh h)
           \<and> cell h' b' = queued [op] (cell h b)
           \<and> (\<forall>a. a < fresh h \<longrightarrow> a \<noteq> b \<longrightarrow> cell h' a = cell h a)"
proof (cases op)
  case (LoadRecord r)
  then show ?thesis using assms by (simp add: load_record_list)
next
  case StartDrain
  then show ?thesis using assms by (simp add: start_drain_list)
next
  case MarkDrained
  then show ?thesis using assms by (simp add: mark_drained_def)
qed

lemma run_ops_invariant:
  assumes "records_to_drain self = ListRef b" and "b < fresh h"
  shows "\<exists>self' h' b'. run_ops ops self h = Inr (self', h')
           \<and> records_to_drain self' = ListRef b' \<and> b' < fresh h' \<and> fresh h \<le> fresh h'
           \<and> cell h' b' = queued ops (cell h b)
           \<and> (\<forall>a. a < fresh h \<longrightarrow> a \<noteq> b \<longrightarrow> cell h' a = cell h a)"
  using assms
proof (induction ops arbitrary: self h b)
  case Nil
  then show ?case by simp
next
  case (Cons op ops)
  from run_op_invariant [OF Cons.prems, of op]
  obtain s1 h1 b1 where 1: "run_op op self h = Inr (s1, h1)"
    "records_to_drain s1 = ListRef b1" "b1 < fresh h1" "fresh h \<le> fresh h1"
    "b1 = b \<or> b1 = fresh h"
    "cell h1 b1 = queued [op] (cell h b)"
    "\<forall>a. a < fresh h \<longrightarrow> a \<noteq> b \<longrightarrow> cell h1 a = cell h a"
    by blast
  from Cons.IH [OF 1(2) 1(3)]
  obtain s2 h2 b2 where 2: "run_ops ops s1 h1 = Inr (s2, h2)"
    "records_to_drain s2 = ListRef b2" "b2 < fresh h2" "fresh h1 \<le> fresh h2"
    "cell h2 b2 = queued ops (cell h1 b1)"
    "\<forall>a. a < fresh h1 \<longrightarrow> a \<noteq> b1 \<longrightarrow> cell h2 a = cell h1 a"
    by blast
  have q: "queued (op # ops) (cell h b) = queued ops (queued [op] (cell h b))"
    using queued_append [of "[op]" ops] by simp
  have keep: "cell h2 a = cell h a" if "a < fresh h" "a \<noteq> b" for a
  proof -
    have "a \<noteq> b1" using 1(5) that by auto
    moreover have "a < fresh h1" using that 1(4) by simp
    ultimately show ?thesis using 1(7) 2(6) that by simp
  qed
  have "fresh h \<le> fresh h2" using 1(4) 2(4) by simp
  then show ?case
    using 1(1) 2(1,2,3,5) 1(6) q keep by simp
qed

text \<open>
  Claim C3. For a sink whose buffer is the list object \<open>a\<close> holding \<open>rs\<close>, where
  \<open>load_record\<close> appends at the end (last conjunct), \<open>start_drain\<close> returns that list
  object, still holding \<open>rs\<close>, stores it as \<open>_records_draining\<close>, and makes a new empty
  list object the buffer, so that \<open>current_size\<close> is 0. Whatever calls follow (loads,
  further drains), the returned batch still holds \<open>rs\<close>: the records loaded later are in
  the new buffer.
\<close>

theorem start_drain_fifo:
  assumes "records_to_drain self = ListRef a" and "a < fresh h" and "cell h a = rs"
  shows "\<exists>b self' h'.
           start_drain self h = (ListRef a, self', h')
           \<and> cell h' a = rs
           \<and> records_draining self' = ListRef a
           \<and> records_to_drain self' = ListRef b \<and> b \<noteq> a \<and> cell h' b = []
           \<and> current_size self' h' = Inr 0
           \<and> (\<forall>later. \<exists>self'' h'' b'.
                 run_ops later self' h' = Inr (self'', h'')
                 \<and> cell h'' a = rs
                 \<and> records_to_drain self'' = ListRef b'
                 \<and> cell h'' b' = queued later [])
           \<and> (\<forall>extra. \<exists>h1.
                 run_ops (map LoadRecord extra) self h = Inr (self, h1) \<and> cell h1 a = rs @ extra)"
proof -
  define self' where "self' = self\<lparr>records_draining := ListRef a, records_to_drain := ListRef (fresh h)\<rparr>"
  define h' where "h' = h\<lparr>cell := (cell h)(fresh h := []), fresh := Suc (fresh h)\<rparr>"
  have sd: "start_drain self h = (ListRef a, self', h')"
    using assms(1) by (simp add: start_drain_list self'_def h'_def)
  have b: "records_to_drain self' = ListRef (fresh h)" "fresh h < fresh h'"
    by (simp_all add: self'_def h'_def)
  have a': "a < fresh h'" "a \<noteq> fresh h" "cell h' a = rs" "cell h' (fresh h) = []"
    using assms(2,3) by (simp_all add: h'_def)
  have later: "\<exists>self'' h'' b'. run_ops later self' h' = Inr (self'', h'')
                 \<and> cell h'' a = rs \<and> records_to_drain self'' = ListRef b'
                 \<and> cell h'' b' = queued later []" for later
    using run_ops_invariant [OF b, of later] a' by auto
  have loads: "\<exists>h1. run_ops (map LoadRecord extra) self h = Inr (self, h1) \<and> cell h1 a = rs @ extra"
    for extra
    using run_ops_loads [OF assms(1), of extra h] assms(3) by auto
  show ?thesis
    using sd b(1) a' later loads
    by (simp add: current_size_def self'_def)
qed


theorem start_drain_fifo_witness:
  "\<exists>b self' h'.
     start_drain \<lparr>sink_config = [], schema = [], stream_name = ''users'',
                   records_to_drain = ListRef 0, records_draining = NoneVal\<rparr>
                 \<lparr>cell = (\<lambda>_. [])(0 := [PInt 1, PInt 2, PInt 3]), fresh = 1\<rparr>
       = (ListRef 0, self', h')
     \<and> cell h' 0 = [PInt 1, PInt 2, PInt 3]
     \<and> records_draining self' = ListRef 0
     \<and> records_to_drain self' = ListRef b \<and> b \<noteq> 0
     \<and> current_size self' h' = Inr 0
     \<and> (\<exists>self'' h'' b'.
           run_ops [LoadRecord (PInt 4)] self' h' = Inr (self'', h'')
           \<and> cell h'' 0 = [PInt 1, PInt 2, PInt 3]
           \<and> records_to_drain self'' = ListRef b'
           \<and> cell h'' b' = [PInt 4])"
proof -
  let ?S = "\<lparr>sink_config = [], schema = [], stream_name = ''users'',
              records_to_drain = ListRef 0, records_draining = NoneVal\<rparr>"
  let ?H = "\<lparr>cell = (\<lambda>_. [])(0 := [PInt 1, PInt 2, PInt 3]), fresh = 1\<rparr>"
  have 1: "records_to_drain ?S = ListRef 0" by simp
  have 2: "0 < fresh ?H" by simp
  have 3: "cell ?H 0 = [PInt 1, PInt 2, PInt 3]" by simp
  from start_drain_fifo [OF 1 2 3]
  obtain b self' h' where
    a: "start_drain ?S ?H = (ListRef 0, self', h')" "cell h' 0 = [PInt 1, PInt 2, PInt 3]"
       "records_draining self' = ListRef 0" "records_to_drain self' = ListRef b" "b \<noteq> 0"
       "current_size self' h' = Inr 0"
    and l: "\<forall>later. \<exists>self'' h'' b'.
                 run_ops later self' h' = Inr (self'', h'')
                 \<and> cell h'' 0 = [PInt 1, PInt 2, PInt 3]
                 \<and> records_to_drain self'' = ListRef b'
                 \<and> cell h'' b' = queued later []"
    by blast
  from l have "\<exists>self'' h'' b'.
                 run_ops [LoadRecord (PInt 4)] self' h' = Inr (self'', h'')
                 \<and> cell h'' 0 = [PInt 1, PInt 2, PInt 3]
                 \<and> records_to_drain self'' = ListRef b'
                 \<and> cell h'' b' = queued [LoadRecord (PInt 4)] []"
    by (rule spec)
  then have "\<exists>self'' h'' b'.
                 run_ops [LoadRecord (PInt 4)] self' h' = Inr (self'', h'')
                 \<and> cell h'' 0 = [PInt 1, PInt 2, PInt 3]
                 \<and> records_to_drain self'' = ListRef b'
                 \<and> cell h'' b' = [PInt 4]"
    by simp
  with a show ?thesis by blast
qed



lemma Sink_init_fresh:
  "Sink_init cfg nm sch h0
     = (\<lparr>sink_config = cfg, schema = sch, stream_name = nm,
         records_to_drain = ListRef (fresh h0), records_draining = NoneVal\<rparr>,
        h0\<lparr>cell := (cell h0)(fresh h0 := []), fresh := Suc (fresh h0)\<rparr>)"
  by (simp add: Sink_init_def new_list_def)

text \<open>
  Claim C10. After any sequence of \<open>load_record\<close>, \<open>start_drain\<close> and \<open>mark_drained\<close>
  calls on a new sink, no call has raised, the buffer holds the records loaded since
  the last \<open>start_drain\<close>, \<open>current_size\<close> is their number and \<open>is_full\<close> says whether
  that number is at least 10000. A new sink has size 0 and is not full; after 10000
  loads the size is 10000 and the sink is full.
\<close>

theorem sink_size_invariant:
  "(\<exists>self h b.
      run_ops ops (fst (Sink_init cfg nm sch h0)) (snd (Sink_init cfg nm sch h0)) = Inr (self, h)
      \<and> records_to_drain self = ListRef b
      \<and> cell h b = queued ops []
      \<and> current_size self h = Inr (length (queued ops []))
      \<and> is_full self h = Inr (length (queued ops []) \<ge> 10000))
   \<and> current_size (fst (Sink_init cfg nm sch h0)) (snd (Sink_init cfg nm sch h0)) = Inr 0
   \<and> is_full (fst (Sink_init cfg nm sch h0)) (snd (Sink_init cfg nm sch h0)) = Inr False
   \<and> (length rs = 10000 \<longrightarrow>
        (\<exists>self h.
           run_ops (map LoadRecord rs) (fst (Sink_init cfg nm sch h0)) (snd (Sink_init cfg nm sch h0))
             = Inr (self, h)
           \<and> current_size self h = Inr 10000
           \<and> is_full self h = Inr True))"
proof -
  let ?S = "fst (Sink_init cfg nm sch h0)"
  let ?H = "snd (Sink_init cfg nm sch h0)"
  have b: "records_to_drain ?S = ListRef (fresh h0)" "fresh h0 < fresh ?H"
    and e: "cell ?H (fresh h0) = []"
    by (simp_all add: Sink_init_fresh)
  have run: "\<exists>self h b.
      run_ops ops ?S ?H = Inr (self, h)
      \<and> records_to_drain self = ListRef b
      \<and> cell h b = queued ops []
      \<and> current_size self h = Inr (length (queued ops []))
      \<and> is_full self h = Inr (length (queued ops []) \<ge> 10000)" for ops
  proof -
    from run_ops_invariant [OF b, of ops] e
    obtain self h b where r: "run_ops ops ?S ?H = Inr (self, h)"
      "records_to_drain self = ListRef b" "cell h b = queued ops []"
      by auto
    then have "current_size self h = Inr (length (queued ops []))"
      by (simp add: current_size_def)
    then have "is_full self h = Inr (length (queued ops []) \<ge> 10000)"
      by (simp add: is_full_def max_size_def MAX_SIZE_DEFAULT_def)
    with r \<open>current_size self h = Inr (length (queued ops []))\<close> show ?thesis
      by blast
  qed
  have fresh0: "current_size ?S ?H = Inr 0" "is_full ?S ?H = Inr False"
    by (simp_all add: Sink_init_fresh current_size_def is_full_def max_size_def
          MAX_SIZE_DEFAULT_def)
  have full: "\<exists>self h. run_ops (map LoadRecord rs) ?S ?H = Inr (self, h)
           \<and> current_size self h = Inr 10000 \<and> is_full self h = Inr True"
    if "length rs = 10000"
    using run [of "map LoadRecord rs"] that by (auto simp: queued_loads)
  show ?thesis
    using run [of ops] fresh0 full by blast
qed

theorem sink_size_invariant_witness:
  "(\<exists>self h b.
      run_ops [LoadRecord PNone, StartDrain, LoadRecord (PInt 1)]
        (fst (Sink_init [] ''users'' [] \<lparr>cell = (\<lambda>_. []), fresh = 0\<rparr>))
        (snd (Sink_init [] ''users'' [] \<lparr>cell = (\<lambda>_. []), fresh = 0\<rparr>)) = Inr (self, h)
      \<and> records_to_drain self = ListRef b
      \<and> cell h b = [PInt 1]
      \<and> current_size self h = Inr 1
      \<and> is_full self h = Inr False)
   \<and> (\<exists>self h.
        run_ops (map LoadRecord (replicate 10000 PNone))
          (fst (Sink_init [] ''users'' [] \<lparr>cell = (\<lambda>_. []), fresh = 0\<rparr>))
          (snd (Sink_init [] ''users'' [] \<lparr>cell = (\<lambda>_. []), fresh = 0\<rparr>)) = Inr (self, h)
        \<and> current_size self h = Inr 10000
        \<and> is_full self h = Inr True)"
  using sink_size_invariant
          [of "[LoadRecord PNone, StartDrain, LoadRecord (PInt 1)]" "[]" "''users''" "[]"
              "\<lparr>cell = (\<lambda>_. []), fresh = 0\<rparr>" "replicate 10000 PNone"]
  by simp

section \<open>Configuration validation\<close>

lemma warn_loop_eq:
  "warn_loop accepted ks warnings
     = warnings @ map unexpected_option (filter (\<lambda>k. k \<notin> set accepted) ks)"
  by (induction ks arbitrary: warnings) simp_all

lemma sets_loop_eq:
  "sets_loop ks reqs matched_any missing
     = (matched_any \<or> (\<exists>s \<in> set reqs. set s \<subseteq> set ks),
        missing @ map (filter (\<lambda>x. x \<notin> set ks)) (filter (\<lambda>s. \<not> set s \<subseteq> set ks) reqs))"
proof (induction reqs arbitrary: matched_any missing)
  case Nil
  show ?case by simp
next
  case (Cons s reqs)
  have "list_all (\<lambda>x. x \<in> set ks) s \<longleftrightarrow> set s \<subseteq> set ks"
    by (auto simp: list_all_iff)
  then show ?case
    by (simp add: Cons.IH)
qed

lemma unexpected_option_inj: "unexpected_option k = unexpected_option k' \<longleftrightarrow> k = k'"
  by (simp add: unexpected_option_def)

lemma count_list_unexpected:
  "distinct ks \<Longrightarrow>
   count_list (map unexpected_option (filter P ks)) (unexpected_option k)
     = (if k \<in> set ks \<and> P k then 1 else 0)"
  by (induction ks) (auto simp: unexpected_option_inj)

lemma read_sets_name:
  "list_all plain_char x \<Longrightarrow>
   read_sets (x @ CHR 0x27 # rest) (Some nm) cur sets = read_sets rest None (cur @ [nm @ x]) sets"
proof (induction x arbitrary: nm)
  case Nil
  show ?case by simp
next
  case (Cons c x)
  then have "c \<noteq> CHR 0x27" by (simp add: plain_char_def)
  with Cons show ?case by simp
qed

lemma repr_char_plain: "plain_char c \<Longrightarrow> repr_char (CHR 0x27) c = [c]"
  by (auto simp: plain_char_def repr_char_def printable_def)

lemma repr_str_plain:
  assumes "list_all plain_char x"
  shows "repr_str x = CHR 0x27 # x @ [CHR 0x27]"
proof -
  from assms have "CHR 0x27 \<notin> set x"
    by (auto simp: list_all_iff plain_char_def)
  moreover from assms have "concat (map (repr_char (CHR 0x27)) x) = x"
    by (induction x) (simp_all add: repr_char_plain)
  ultimately show ?thesis
    by (simp add: repr_str_def Let_def)
qed

lemma read_sets_repr:
  "list_all plain_char x \<Longrightarrow>
   read_sets (repr_str x @ rest) None cur sets = read_sets rest None (cur @ [x]) sets"
  using read_sets_name [of x rest "[]" cur sets] by (simp add: repr_str_plain)

lemma read_sets_sep:
  "read_sets (CHR '','' # CHR '' '' # rest) None cur sets = read_sets rest None cur sets"
  by simp

lemma read_sets_names:
  "list_all (list_all plain_char) xs \<Longrightarrow>
   read_sets (join '', '' (map repr_str xs) @ rest) None cur sets
     = read_sets rest None (cur @ xs) sets"
proof (induction xs arbitrary: cur)
  case Nil
  show ?case by simp
next
  case (Cons x xs)
  show ?case
  proof (cases xs)
    case Nil
    with Cons.prems show ?thesis by (simp add: read_sets_repr)
  next
    case (Cons y ys)
    with Cons.prems Cons.IH [of "cur @ [x]"] show ?thesis
      by (simp add: read_sets_repr read_sets_sep del: read_sets.simps)
  qed
qed

lemma read_sets_set:
  "list_all (list_all plain_char) xs \<Longrightarrow>
   read_sets (repr_list (map repr_str xs) @ rest) None [] sets
     = read_sets rest None [] (sets @ [xs])"
  using read_sets_names [of xs "CHR '']'' # rest" "[]" sets]
  by (simp add: repr_list_def)

lemma read_sets_sets:
  "list_all (list_all (list_all plain_char)) M \<Longrightarrow>
   read_sets (join '', '' (map (\<lambda>s. repr_list (map repr_str s)) M) @ rest) None [] sets
     = read_sets rest None [] (sets @ M)"
proof (induction M arbitrary: sets)
  case Nil
  show ?case by simp
next
  case (Cons x xs)
  show ?case
  proof (cases xs)
    case Nil
    with Cons.prems show ?thesis by (simp add: read_sets_set)
  next
    case (Cons y ys)
    with Cons.prems Cons.IH [of "sets @ [x]"] show ?thesis
      by (simp add: read_sets_set read_sets_sep del: read_sets.simps)
  qed
qed

lemma listed_sets_str_missing:
  assumes "list_all (list_all (list_all plain_char)) M"
  shows "listed_sets (str_missing M) = M"
proof -
  have "butlast (str_missing M)
          = CHR ''['' # join '', '' (map (\<lambda>s. repr_list (map repr_str s)) M) @ []"
    by (simp add: str_missing_def repr_list_def butlast_append)
  then show ?thesis
    using read_sets_sets [OF assms, of "[]" "[]"]
    by (simp add: listed_sets_def)
qed

lemma unexpected_option_fun:
  "unexpected_option = (\<lambda>k. ''Unexpected config option found: '' @ k @ ''.'')"
  by (simp add: fun_eq_iff unexpected_option_def)

text \<open>
  Claim C4. The warnings of \<open>validate_config\<close> are the message
  \<open>Unexpected config option found: k.\<close> for the configuration keys \<open>k\<close> that
  \<open>accepted_options\<close> does not list, in the order of the configuration and nothing
  else; as a dictionary holds a key once, each such key has exactly one warning. When
  \<open>option_set_requirements\<close> is not empty and no set has all its options among the
  configuration keys, the errors are one message: the fixed text, and then the list of
  the sets, each as the list of its options that are missing from the configuration;
  with plain option names, reading the message back gives exactly these sets of
  missing options. When \<open>option_set_requirements\<close> is empty or some set is satisfied,
  there is no error.
\<close>

theorem validate_config_spec:
  "fst (validate_config self)
     = map (\<lambda>k. ''Unexpected config option found: '' @ k @ ''.'')
         (filter (\<lambda>k. k \<notin> set (accepted_options self)) (keys (config self)))
   \<and> (distinct (keys (config self)) \<longrightarrow>
        (\<forall>k. count_list (fst (validate_config self))
                 (''Unexpected config option found: '' @ k @ ''.'')
               = (if k \<in> set (keys (config self)) \<and> k \<notin> set (accepted_options self)
                  then 1 else 0)))
   \<and> (option_set_requirements self \<noteq> []
        \<and> (\<forall>s \<in> set (option_set_requirements self). \<not> set s \<subseteq> set (keys (config self)))
        \<longrightarrow> (\<exists>body.
               snd (validate_config self)
                 = [''One or more required config options are missing. ''
                    @ ''Please complete one or more of the following sets: '' @ body]
               \<and> body = str_missing
                           (map (filter (\<lambda>x. x \<notin> set (keys (config self))))
                              (option_set_requirements self))
               \<and> (list_all (list_all (list_all plain_char)) (option_set_requirements self)
                    \<longrightarrow> listed_sets body
                          = map (filter (\<lambda>x. x \<notin> set (keys (config self))))
                              (option_set_requirements self))))
   \<and> (option_set_requirements self = []
        \<or> (\<exists>s \<in> set (option_set_requirements self). set s \<subseteq> set (keys (config self)))
        \<longrightarrow> snd (validate_config self) = [])"
proof -
  let ?ks = "keys (config self)"
  let ?reqs = "option_set_requirements self"
  let ?M = "map (filter (\<lambda>x. x \<notin> set ?ks)) ?reqs"
  have w: "fst (validate_config self)
             = map unexpected_option (filter (\<lambda>k. k \<notin> set (accepted_options self)) ?ks)"
    by (simp add: validate_config_def warn_loop_eq)
  have c: "count_list (fst (validate_config self)) (unexpected_option k)
             = (if k \<in> set ?ks \<and> k \<notin> set (accepted_options self) then 1 else 0)"
    if "distinct ?ks" for k
    using that by (simp only: w count_list_unexpected)
  have e1: "snd (validate_config self)
              = [''One or more required config options are missing. ''
                 @ ''Please complete one or more of the following sets: '' @ str_missing ?M]"
    if "?reqs \<noteq> []" "\<forall>s \<in> set ?reqs. \<not> set s \<subseteq> set ?ks"
  proof -
    have "filter (\<lambda>s. \<not> set s \<subseteq> set ?ks) ?reqs = ?reqs"
      using that(2) by (simp add: filter_id_conv)
    then show ?thesis
      using that by (simp add: validate_config_def sets_loop_eq missing_options_def)
  qed
  have rt: "listed_sets (str_missing ?M) = ?M"
    if "list_all (list_all (list_all plain_char)) ?reqs"
  proof -
    from that have "list_all (list_all (list_all plain_char)) ?M"
      by (auto simp: list_all_iff)
    then show ?thesis
      by (rule listed_sets_str_missing)
  qed
  have e2: "snd (validate_config self) = []"
    if "?reqs = [] \<or> (\<exists>s \<in> set ?reqs. set s \<subseteq> set ?ks)"
    using that by (auto simp: validate_config_def sets_loop_eq)
  have 1: "fst (validate_config self)
     = map (\<lambda>k. ''Unexpected config option found: '' @ k @ ''.'')
         (filter (\<lambda>k. k \<notin> set (accepted_options self)) ?ks)"
    using w by (simp only: unexpected_option_fun)
  have 2: "\<forall>k. count_list (fst (validate_config self))
                 (''Unexpected config option found: '' @ k @ ''.'')
               = (if k \<in> set ?ks \<and> k \<notin> set (accepted_options self) then 1 else 0)"
    if "distinct ?ks"
    using c [OF that] by (simp only: unexpected_option_def) simp
  show ?thesis
    using 1 2 e1 rt e2 by blast
qed

theorem validate_config_spec_witness:
  "validate_config
     \<lparr>name = ''tap'', vers = ''1.0'', capabilities = [],
      accepted_options = [''user'', ''password'', ''token''],
      option_set_requirements = [[''user'', ''password''], [''token'']],
      config = [(''user'', PStr ''a''), (''extra'', PInt 1)],
      conn_class = (\<lambda>_. None), conn = Bound None\<rparr>
     = ([''Unexpected config option found: extra.''],
        [''One or more required config options are missing. ''
         @ ''Please complete one or more of the following sets: ''
         @ ''[['' @ [CHR 0x27] @ ''password'' @ [CHR 0x27] @ ''], [''
         @ [CHR 0x27] @ ''token'' @ [CHR 0x27] @ '']]''])
   \<and> listed_sets (''[['' @ [CHR 0x27] @ ''password'' @ [CHR 0x27] @ ''], [''
                     @ [CHR 0x27] @ ''token'' @ [CHR 0x27] @ '']]'')
       = [[''password''], [''token'']]
   \<and> validate_config
     \<lparr>name = ''tap'', vers = ''1.0'', capabilities = [],
      accepted_options = [''user'', ''password'', ''token''],
      option_set_requirements = [[''user'', ''password''], [''token'']],
      config = [(''token'', PStr ''t'')],
      conn_class = (\<lambda>_. None), conn = Bound None\<rparr>
     = ([], [])"
proof -
  have m: "str_missing [[''password''], [''token'']]
             = ''[['' @ [CHR 0x27] @ ''password'' @ [CHR 0x27] @ ''], [''
               @ [CHR 0x27] @ ''token'' @ [CHR 0x27] @ '']]''"
    by code_simp
  have p: "list_all (list_all (list_all plain_char)) [[''user'', ''password''], [''token'']]"
    by code_simp
  show ?thesis
    using validate_config_spec
            [of "\<lparr>name = ''tap'', vers = ''1.0'', capabilities = [],
                  accepted_options = [''user'', ''password'', ''token''],
                  option_set_requirements = [[''user'', ''password''], [''token'']],
                  config = [(''user'', PStr ''a''), (''extra'', PInt 1)],
                  conn_class = (\<lambda>_. None), conn = Bound None\<rparr>"]
          validate_config_spec
            [of "\<lparr>name = ''tap'', vers = ''1.0'', capabilities = [],
                  accepted_options = [''user'', ''password'', ''token''],
                  option_set_requirements = [[''user'', ''password''], [''token'']],
                  config = [(''token'', PStr ''t'')],
                  conn_class = (\<lambda>_. None), conn = Bound None\<rparr>"]
          p
    by (simp add: prod_eq_iff keys_def m)
qed

section \<open>The tap's connection\<close>

lemma get_connection_unbound:
  "conn self = Unbound \<Longrightarrow> get_connection self n = (Inl (AttributeError ''_conn''), self, n)"
  by (simp add: get_connection_def read_conn_def)

lemma get_connection_existing:
  "conn self = Bound (Some c) \<Longrightarrow> get_connection self n = (Inr (Some c), self, n)"
  by (simp add: get_connection_def read_conn_def conn_truthy_def)

lemma get_connection_create:
  "conn self = Bound None \<Longrightarrow> conn_class self (config self) = None \<Longrightarrow>
   get_connection self n
     = (Inr (Some (Conn n (config self))), self\<lparr>conn := Bound (Some (Conn n (config self)))\<rparr>,
        Suc n)"
  by (simp add: get_connection_def read_conn_def conn_truthy_def instantiate_def)

lemma get_connection_create_fails:
  "conn self = Bound None \<Longrightarrow> conn_class self (config self) = Some e \<Longrightarrow>
   get_connection self n = (Inl e, self, n)"
  by (simp add: get_connection_def read_conn_def conn_truthy_def instantiate_def)

text \<open>
  Once \<open>_conn\<close> has been assigned (\<open>None\<close> or a connection) and the connection class
  does not raise, two calls in a row return the same instance, and the second one
  constructs nothing.
\<close>

lemma get_connection_singleton:
  assumes "conn self = Bound v" and "conn_class self (config self) = None"
  shows "\<exists>c self1 n1.
           get_connection self n = (Inr (Some c), self1, n1)
           \<and> get_connection self1 n1 = (Inr (Some c), self1, n1)
           \<and> n1 \<le> Suc n
           \<and> (v = None \<longrightarrow> c = Conn n (config self) \<and> n1 = Suc n)
           \<and> (v \<noteq> None \<longrightarrow> v = Some c \<and> n1 = n \<and> self1 = self)"
proof (cases v)
  case None
  then show ?thesis
    using assms get_connection_create [of self n]
      get_connection_existing [of "self\<lparr>conn := Bound (Some (Conn n (config self)))\<rparr>"]
    by simp
next
  case (Some c)
  then show ?thesis
    using assms get_connection_existing [of self c n] by simp
qed

text \<open>
  Claim C2. Whatever its arguments, \<open>TapBase.__init__\<close> raises \<open>AttributeError\<close>:
  its call of \<open>get_connection\<close> reads \<open>_conn\<close>, which nothing has assigned yet. No tap
  is returned and no connection is constructed (the count of constructed instances is
  unchanged), so the branch that creates the connection is not reached. \<open>TapBase\<close>
  gives \<open>_conn\<close> an annotation and no value, and the plugin base is taken to give it
  none either.
\<close>

theorem TapBase_init_raises:
  "TapBase_init plugin_name version caps accepted requirements connection_class cfg n
     = (Inl (AttributeError ''_conn''), n)"
  by (simp add: TapBase_init_def get_connection_unbound)

text \<open>
  Claim C5. The claim fails on the tap as \<open>__init__\<close> has it when it calls
  \<open>get_connection\<close>: no connection exists yet, and the call raises \<open>AttributeError\<close>
  where the claim has it construct one. (With \<open>_conn\<close> assigned, two calls do return
  the same instance: \<open>get_connection_singleton\<close>.)
\<close>

theorem get_connection_during_init:
  "get_connection
     \<lparr>name = ''tap'', vers = ''1.0'', capabilities = [], accepted_options = [],
      option_set_requirements = [], config = [(''account'', PStr ''a'')],
      conn_class = (\<lambda>_. None), conn = Unbound\<rparr> 0
     = (Inl (AttributeError ''_conn''),
        \<lparr>name = ''tap'', vers = ''1.0'', capabilities = [], accepted_options = [],
         option_set_requirements = [], config = [(''account'', PStr ''a'')],
         conn_class = (\<lambda>_. None), conn = Unbound\<rparr>, 0)"
  by (simp add: get_connection_unbound)

section \<open>The sample connection's query\<close>

lemma emit_simps [simp]: "emit evs (r, tr) = (r, evs @ tr)"
  by (simp add: emit_def)

lemma closing_simps [simp]: "closing evs (r, tr) = (r, tr @ evs)"
  by (simp add: closing_def)

text \<open>
  The dictionary made of a list of pairs has every first component once as a key, and
  under a key the value of the last pair with that key.
\<close>

lemma dict_of_fold:
  assumes "distinct (keys d)"
  shows "distinct (keys (foldl (\<lambda>d (k, v). dict_set d k v) d ps))
     \<and> set (keys (foldl (\<lambda>d (k, v). dict_set d k v) d ps)) = set (keys d) \<union> fst ` set ps
     \<and> map_of (foldl (\<lambda>d (k, v). dict_set d k v) d ps) = map_of d ++ map_of (rev ps)"
  using assms
proof (induction ps arbitrary: d)
  case Nil
  then show ?case by simp
next
  case (Cons p ps)
  obtain k v where p: "p = (k, v)" by (cases p)
  have d: "distinct (keys (dict_set d k v))"
    using Cons.prems by (simp add: keys_dict_set)
  have m: "map_of (dict_set d k v) ++ map_of (rev ps) = map_of d ++ map_of (rev ps @ [(k, v)])"
    by (auto simp: map_of_dict_set map_add_def fun_eq_iff split: option.splits)
  from Cons.IH [OF d] show ?case
    by (simp add: p m) (auto simp: keys_dict_set)
qed

lemma keyed_row_dict_of: "keyed_row columns (PDict (dict_of (zip columns vals))) vals"
  using dict_of_fold [of "[]" "zip columns vals"]
  by (simp add: keyed_row_def dict_of_def keys_def)

lemma fetch_rows_keyed:
  assumes "fetch_rows cl DictCursor cur = Inr (rows, cur')"
  shows "\<exists>columns vals. fetchall cl cur = Inr ((columns, vals), cur')
           \<and> list_all2 (keyed_row columns) rows vals \<and> list_all is_dict_row rows"
proof -
  from assms obtain columns vals where
    f: "fetchall cl cur = Inr ((columns, vals), cur')"
    and r: "rows = map (shape_row DictCursor columns) vals"
    by (auto simp: fetch_rows_def split: sum.splits)
  have "list_all2 (keyed_row columns) (map (shape_row DictCursor columns) vals) vals"
    by (simp add: list_all2_map1 list_all2_same keyed_row_dict_of)
  moreover have "list_all is_dict_row (map (shape_row DictCursor columns) vals)"
    by (simp add: list_all_iff)
  ultimately show ?thesis
    using f r by simp
qed

lemma run_queries_starts:
  "starts_executed (snd (run_queries cl cls params max_records qs cur result))"
  by (cases qs) (auto simp: emit_def split: sum.splits prod.splits)

lemma client_run_Executed:
  "client_run cl params cur (Executed sql n # tr)
     = (case execute cl cur sql params of
          Inl e \<Rightarrow> False
        | Inr cur1 \<Rightarrow> n = rowcount cl cur1 \<and> \<not> n > 0 \<and> client_run cl params cur1 tr)"
  if "starts_executed tr"
proof (cases tr)
  case Nil
  show ?thesis unfolding Nil by simp
next
  case (Cons ev tr')
  with that obtain s m where ev: "ev = Executed s m"
    by (cases ev) simp_all
  show ?thesis unfolding Cons ev by simp
qed

lemma run_queries_ok:
  "run_queries cl DictCursor params max_records qs cur result = (Inr r, tr) \<Longrightarrow>
   client_run cl params cur tr \<and> executed tr = qs \<and> r = last_fetched tr result
   \<and> (list_all is_dict_row result \<longrightarrow> list_all is_dict_row r)"
proof (induction qs arbitrary: cur result tr)
  case Nil
  then show ?case by simp
next
  case (Cons sql rest)
  from Cons.prems obtain cur1 where ex: "execute cl cur sql params = Inr cur1"
    by (auto split: sum.splits)
  let ?n = "rowcount cl cur1"
  from Cons.prems ex have guard: "\<not> (max_records \<noteq> 0 \<and> ?n > max_records)"
    by (auto split: if_splits)
  show ?case
  proof (cases "?n > 0")
    case True
    with Cons.prems ex guard obtain rows cur2 where
      f: "fetch_rows cl DictCursor cur1 = Inr (rows, cur2)"
      by (auto split: sum.splits if_splits)
    from fetch_rows_keyed [OF f] obtain columns vals where
      k: "fetchall cl cur1 = Inr ((columns, vals), cur2)"
         "list_all2 (keyed_row columns) rows vals" "list_all is_dict_row rows"
      by blast
    obtain r' tr' where
      rec: "run_queries cl DictCursor params max_records rest cur2 rows = (r', tr')"
      by (cases "run_queries cl DictCursor params max_records rest cur2 rows")
    with Cons.prems ex guard True f have
      "r' = Inr r" "tr = Executed sql ?n # Fetched rows # tr'"
      by (auto split: if_splits)
    with Cons.IH [of cur2 rows tr'] rec True ex k show ?thesis
      by auto
  next
    case False
    obtain r' tr' where
      rec: "run_queries cl DictCursor params max_records rest cur1 result = (r', tr')"
      by (cases "run_queries cl DictCursor params max_records rest cur1 result")
    with Cons.prems ex guard False have
      eq: "r' = Inr r" "tr = Executed sql ?n # tr'"
      by (auto split: if_splits)
    have "starts_executed tr'"
      using run_queries_starts [of cl DictCursor params max_records rest cur1 result] rec
      by simp
    with Cons.IH [of cur1 result tr'] rec False eq ex show ?thesis
      by (auto simp: client_run_Executed)
  qed
qed

lemma executed_append: "executed (tr @ tr') = executed tr @ executed tr'"
  by (induction tr rule: executed.induct) simp_all

lemma last_fetched_append: "last_fetched (tr @ tr') acc = last_fetched tr' (last_fetched tr acc)"
  by (induction tr acc rule: last_fetched.induct) simp_all

lemma run_queries_guard:
  "execute cl cur sql params = Inr cur1 \<Longrightarrow> max_records \<noteq> 0 \<Longrightarrow>
   rowcount cl cur1 > max_records \<Longrightarrow>
   run_queries cl cls params max_records (sql # rest) cur result
     = (Inl (NameError ''TooManyRecordsException''), [Executed sql (rowcount cl cur1)])"
  by simp

lemma run_queries_completes:
  assumes "\<forall>cur sql. \<exists>cur'. execute cl cur sql params = Inr cur'"
    and "\<forall>cur. \<exists>out. fetchall cl cur = Inr out"
    and "max_records = 0 \<or> (\<forall>cur. rowcount cl cur \<le> max_records)"
  shows "\<exists>r tr. run_queries cl cls params max_records qs cur result = (Inr r, tr)"
proof (induction qs arbitrary: cur result)
  case Nil
  show ?case by simp
next
  case (Cons sql rest)
  from assms(1) obtain cur1 where ex: "execute cl cur sql params = Inr cur1"
    by blast
  from assms(2) obtain columns vals cur2 where f: "fetchall cl cur1 = Inr ((columns, vals), cur2)"
    by (metis surj_pair)
  from assms(3) have guard: "\<not> (max_records \<noteq> 0 \<and> rowcount cl cur1 > max_records)"
    by (auto simp: not_less)
  from Cons.IH [of cur2 "map (shape_row cls columns) vals"] Cons.IH [of cur1 result] guard
  show ?case
    by (auto simp: ex f emit_def fetch_rows_def)
qed


text \<open>
  Claim C6. When \<open>query\<close> is given a list of statements and returns, it has acquired
  one connection and on it one cursor of the class \<open>DictCursor\<close>, and released both;
  in between it has run \<open>START TRANSACTION\<close> and then the given statements, in their
  order, each on the cursor as the statement before left it; after each statement it
  has read the cursor's row count, and fetched the cursor's rows when and only when that
  count is positive; the value returned is the rows of the last fetch, or the empty
  list when nothing was fetched, and every row is a dictionary keyed by column name.
  With a client whose calls do not fail, and a limit that is 0 or that no row count
  exceeds, the call does return.
\<close>

theorem query_statements_result:
  "(query cl (Statements stmts) params max_records = (Inr result, tr) \<longrightarrow>
      (\<exists>connection cur inner.
          connect_with_backoff cl = Inr connection
          \<and> cursor cl connection DictCursor = Inr cur
          \<and> tr = [Connected, CursorOpened] @ inner @ [CursorClosed, Disconnected]
          \<and> client_run cl params cur inner
          \<and> executed inner = ''START TRANSACTION'' # stmts
          \<and> result = last_fetched inner []
          \<and> list_all is_dict_row result))
   \<and> (connect_with_backoff cl = Inr c \<and> cursor cl c DictCursor = Inr k
       \<and> (\<forall>cur sql. \<exists>cur'. execute cl cur sql params = Inr cur')
       \<and> (\<forall>cur. \<exists>out. fetchall cl cur = Inr out)
       \<and> (max_records = 0 \<or> (\<forall>cur. rowcount cl cur \<le> max_records))
       \<longrightarrow> (\<exists>result' tr'. query cl (Statements stmts) params max_records = (Inr result', tr')))"
proof (intro conjI impI)
  assume q: "query cl (Statements stmts) params max_records = (Inr result, tr)"
  then obtain c0 where c0: "connect_with_backoff cl = Inr c0"
    by (auto simp: query_def split: sum.splits)
  with q obtain k0 where k0: "cursor cl c0 DictCursor = Inr k0"
    by (auto simp: query_def emit_def closing_def split: sum.splits)
  obtain r inner where
    rq: "run_queries cl DictCursor params max_records (''START TRANSACTION'' # stmts) k0 []
           = (r, inner)"
    by (cases "run_queries cl DictCursor params max_records (''START TRANSACTION'' # stmts) k0 []")
  with q c0 k0 have r: "r = Inr result"
    and tr: "tr = [Connected, CursorOpened] @ inner @ [CursorClosed, Disconnected]"
    by (auto simp: query_def)
  from run_queries_ok [OF rq [unfolded r]]
  have "client_run cl params k0 inner" "executed inner = ''START TRANSACTION'' # stmts"
    "result = last_fetched inner []" "list_all is_dict_row result"
    by auto
  with c0 k0 tr show "\<exists>connection cur inner.
          connect_with_backoff cl = Inr connection
          \<and> cursor cl connection DictCursor = Inr cur
          \<and> tr = [Connected, CursorOpened] @ inner @ [CursorClosed, Disconnected]
          \<and> client_run cl params cur inner
          \<and> executed inner = ''START TRANSACTION'' # stmts
          \<and> result = last_fetched inner []
          \<and> list_all is_dict_row result"
    by blast
next
  assume a: "connect_with_backoff cl = Inr c \<and> cursor cl c DictCursor = Inr k
       \<and> (\<forall>cur sql. \<exists>cur'. execute cl cur sql params = Inr cur')
       \<and> (\<forall>cur. \<exists>out. fetchall cl cur = Inr out)
       \<and> (max_records = 0 \<or> (\<forall>cur. rowcount cl cur \<le> max_records))"
  then obtain r inner where
    "run_queries cl DictCursor params max_records (''START TRANSACTION'' # stmts) k []
       = (Inr r, inner)"
    using run_queries_completes
            [of cl params max_records DictCursor "''START TRANSACTION'' # stmts" k "[]"]
    by blast
  with a show "\<exists>result' tr'. query cl (Statements stmts) params max_records = (Inr result', tr')"
    by (simp add: query_def)
qed

theorem query_statements_result_witness:
  "query sample_client (Statements [''SELECT ID FROM T'', ''COMMIT'']) () 0
     = (Inr [PDict [(''ID'', PInt 1)], PDict [(''ID'', PInt 2)]],
        [Connected, CursorOpened, Executed ''START TRANSACTION'' 0,
         Executed ''SELECT ID FROM T'' 2,
         Fetched [PDict [(''ID'', PInt 1)], PDict [(''ID'', PInt 2)]],
         Executed ''COMMIT'' 0, CursorClosed, Disconnected])
   \<and> client_run sample_client () []
        [Executed ''START TRANSACTION'' 0, Executed ''SELECT ID FROM T'' 2,
         Fetched [PDict [(''ID'', PInt 1)], PDict [(''ID'', PInt 2)]],
         Executed ''COMMIT'' 0]
   \<and> (\<exists>result' tr'.
         query sample_client (Statements [''SELECT ID FROM T'', ''COMMIT'']) () 0
           = (Inr result', tr'))"
proof -
  let ?inner = "[Executed ''START TRANSACTION'' 0, Executed ''SELECT ID FROM T'' 2,
         Fetched [PDict [(''ID'', PInt 1)], PDict [(''ID'', PInt 2)]],
         Executed ''COMMIT'' 0]"
  have q: "query sample_client (Statements [''SELECT ID FROM T'', ''COMMIT'']) () 0
     = (Inr [PDict [(''ID'', PInt 1)], PDict [(''ID'', PInt 2)]],
        [Connected, CursorOpened] @ ?inner @ [CursorClosed, Disconnected])"
    by (simp add: query_def sample_client_def fetch_rows_def dict_of_def dict_set_def keys_def)
  have nf: "connect_with_backoff sample_client = Inr () \<and> cursor sample_client () DictCursor = Inr []
       \<and> (\<forall>cur sql. \<exists>cur'. execute sample_client cur sql () = Inr cur')
       \<and> (\<forall>cur. \<exists>out. fetchall sample_client cur = Inr out)
       \<and> ((0::int) = 0 \<or> (\<forall>cur. rowcount sample_client cur \<le> 0))"
    by (simp add: sample_client_def)
  from query_statements_result
         [of sample_client "[''SELECT ID FROM T'', ''COMMIT'']" "()" 0
             "[PDict [(''ID'', PInt 1)], PDict [(''ID'', PInt 2)]]"
             "[Connected, CursorOpened] @ ?inner @ [CursorClosed, Disconnected]" "()" "[]"]
       q nf
  have run: "client_run sample_client () [] ?inner"
    and ret: "\<exists>result' tr'.
         query sample_client (Statements [''SELECT ID FROM T'', ''COMMIT'']) () 0
           = (Inr result', tr')"
    by (auto simp: sample_client_def)
  show ?thesis
    using q run ret by simp
qed

text \<open>
  Claim C7. A statement reports 2 rows and \<open>max_records\<close> is 1: the guard fires before
  any fetch, but what \<open>query\<close> raises is \<open>NameError\<close>, as the name
  \<open>TooManyRecordsException\<close> is bound nowhere in the module; the failure that names the
  limit is never raised. With \<open>max_records\<close> 0 the same statement returns both rows,
  and so it does with \<open>max_records\<close> 2, which the row count does not exceed.
\<close>

theorem query_too_many_records:
  "query sample_client (Statement ''SELECT ID FROM T'') () 1
     = (Inl (NameError ''TooManyRecordsException''),
        [Connected, CursorOpened, Executed ''SELECT ID FROM T'' 2, CursorClosed,
         Disconnected])
   \<and> query sample_client (Statement ''SELECT ID FROM T'') () 0
     = (Inr [PDict [(''ID'', PInt 1)], PDict [(''ID'', PInt 2)]],
        [Connected, CursorOpened, Executed ''SELECT ID FROM T'' 2,
         Fetched [PDict [(''ID'', PInt 1)], PDict [(''ID'', PInt 2)]], CursorClosed,
         Disconnected])
   \<and> query sample_client (Statement ''SELECT ID FROM T'') () 2
     = (Inr [PDict [(''ID'', PInt 1)], PDict [(''ID'', PInt 2)]],
        [Connected, CursorOpened, Executed ''SELECT ID FROM T'' 2,
         Fetched [PDict [(''ID'', PInt 1)], PDict [(''ID'', PInt 2)]], CursorClosed,
         Disconnected])"
  by (simp add: query_def sample_client_def fetch_rows_def dict_of_def dict_set_def keys_def)

section \<open>Timestamp validation\<close>











end
